theory Spec2Isabelle
  imports Main "HOL-Library.Char_ord" "HOL-Library.List_Lexorder" "HOL-Library.Sublist"
begin

section \<open>DatabaseOrdinary: the catalog of tables kept as descriptor files\<close>

text \<open>
  A shallow embedding of \<^verbatim>\<open>dbms/src/Databases/DatabaseOrdinary.cpp\<close>. A member function
  becomes a function from the state before the call to a result and the state after it.
  An exception is the result \<open>Inl e\<close>; the state is returned in that case as well, because
  a C++ exception does not undo the effects that preceded it. \<^verbatim>\<open>renameTable\<close> and
  \<^verbatim>\<open>getCreateQuery\<close>, which no property below is about, are left out.
\<close>

subsection \<open>Exceptions\<close>

text \<open>
  The error codes the source declares (\<^verbatim>\<open>namespace ErrorCodes\<close>), \<open>NOT_IMPLEMENTED\<close>
  which \<^verbatim>\<open>renameTable\<close> uses, \<open>BAD_CAST\<close> of \<^verbatim>\<open>typeid_cast\<close> (its message is abridged to
  \<open>Bad cast\<close> below) and \<open>SYNTAX_ERROR\<close> of the parser.
\<close>

datatype error_code =
    TABLE_ALREADY_EXISTS
  | UNKNOWN_TABLE
  | TABLE_METADATA_DOESNT_EXIST
  | CANNOT_CREATE_TABLE_FROM_METADATA
  | INCORRECT_FILE_NAME
  | NOT_IMPLEMENTED
  | BAD_CAST
  | SYNTAX_ERROR

text \<open>The operations on files that the catalog performs, by path.\<close>

datatype fs_op =
    OpRead string
  | OpCreate string
  | OpRemove string
  | OpRename string string

text \<open>
  \<open>Exception msg code\<close> is \<^verbatim>\<open>DB::Exception(msg, code)\<close>, the only type the handler in
  \<^verbatim>\<open>loadTable\<close> catches. \<open>FileException op\<close> is the exception of a file operation that failed
  (Poco's file exceptions and the errno exceptions of the file buffers). \<open>OutOfRange\<close> is
  \<^verbatim>\<open>std::out_of_range\<close> of \<^verbatim>\<open>std::string::at\<close>. \<open>UndefinedBehaviour\<close> marks an operation the
  C++ standard leaves undefined (use of a singular iterator, of a null pointer).
\<close>

datatype exn =
    Exception string error_code
  | FileException fs_op
  | OutOfRange
  | UndefinedBehaviour

subsection \<open>Definitions of tables\<close>

text \<open>
  The members of \<^verbatim>\<open>ASTCreateQuery\<close> that the source reads or writes. The select clause is
  held by value, as the deep copy of \<^verbatim>\<open>clone()\<close> holds it. The members the source
  never touches (columns, storage) live in the record's extension.
\<close>

record ASTCreateQuery =
  attach :: bool
  if_not_exists :: bool
  is_populate :: bool
  database :: string
  table :: string
  as_database :: string
  as_table :: string
  select :: "string option"

datatype 'm ast =
    CreateQuery "'m ASTCreateQuery_scheme"
  | OtherAST

subsection \<open>The state\<close>

text \<open>
  \<open>name\<close>, \<open>path\<close> and \<open>tables\<close> are the members of the class (\<^verbatim>\<open>std::map<String, StoragePtr>\<close>
  as a finite map; \<open>'h\<close> is the type of table handles). The rest is the environment the
  class acts on:
  \<^item> \<open>files\<close>: the content of every file, by path;
  \<^item> \<open>faulty\<close>: the file operations that the file system refuses (permissions, a full disk,
    a directory in the way), so that a failing rename or unlink can be exercised;
  \<^item> \<open>asts\<close>: the syntax trees that callers hold, by address (\<^verbatim>\<open>ASTPtr\<close>);
  \<^item> \<open>shutdown_calls\<close>: the handles on which \<^verbatim>\<open>IStorage::shutdown\<close> has been called, in
    call order.
\<close>

record ('h, 'm) world =
  name :: string
  path :: string
  tables :: "string \<rightharpoonup> 'h"
  files :: "string \<rightharpoonup> string"
  faulty :: "fs_op set"
  asts :: "nat \<rightharpoonup> 'm ast"
  shutdown_calls :: "'h list"

type_synonym ('h, 'm, 'a) result = "(exn + 'a) \<times> ('h, 'm) world"

subsection \<open>File operations\<close>

text \<open>
  \<^verbatim>\<open>Poco::File(p).remove()\<close>: unlinks the file; throws when the file system refuses or the
  file does not exist.
\<close>

definition remove_file :: "string \<Rightarrow> ('h, 'm) world \<Rightarrow> ('h, 'm, unit) result" where
  "remove_file p w =
     (case files w p of
        None \<Rightarrow> (Inl (FileException (OpRemove p)), w)
      | Some _ \<Rightarrow>
          if OpRemove p \<in> faulty w then (Inl (FileException (OpRemove p)), w)
          else (Inr (), w\<lparr>files := (files w)(p := None)\<rparr>))"

text \<open>
  \<^verbatim>\<open>Poco::File(p).renameTo(q)\<close>: \<^verbatim>\<open>rename(2)\<close>, which replaces an existing target; throws
  when the file system refuses or the source does not exist.
\<close>

definition rename_file :: "string \<Rightarrow> string \<Rightarrow> ('h, 'm) world \<Rightarrow> ('h, 'm, unit) result" where
  "rename_file p q w =
     (case files w p of
        None \<Rightarrow> (Inl (FileException (OpRename p q)), w)
      | Some c \<Rightarrow>
          if OpRename p q \<in> faulty w then (Inl (FileException (OpRename p q)), w)
          else (Inr (), w\<lparr>files := ((files w)(p := None))(q \<mapsto> c)\<rparr>))"

text \<open>
  \<^verbatim>\<open>WriteBufferFromFile out(p, n, O_WRONLY | O_CREAT | O_EXCL)\<close> followed by
  \<^verbatim>\<open>writeString\<close>, \<^verbatim>\<open>next\<close>, \<^verbatim>\<open>sync\<close>, \<^verbatim>\<open>close\<close>: creates the file, which must not exist, and
  writes the content. A refused write is taken to leave no file.
\<close>

definition write_new_file :: "string \<Rightarrow> string \<Rightarrow> ('h, 'm) world \<Rightarrow> ('h, 'm, unit) result" where
  "write_new_file p c w =
     (case files w p of
        Some _ \<Rightarrow> (Inl (FileException (OpCreate p)), w)
      | None \<Rightarrow>
          if OpCreate p \<in> faulty w then (Inl (FileException (OpCreate p)), w)
          else (Inr (), w\<lparr>files := (files w)(p \<mapsto> c)\<rparr>))"

text \<open>\<^verbatim>\<open>ReadBufferFromFile in(p, ...); copyData(in, out)\<close>: the whole content of the file.\<close>

definition read_file :: "string \<Rightarrow> ('h, 'm) world \<Rightarrow> exn + string" where
  "read_file p w =
     (case files w p of
        None \<Rightarrow> Inl (FileException (OpRead p))
      | Some c \<Rightarrow> if OpRead p \<in> faulty w then Inl (FileException (OpRead p)) else Inr c)"

subsection \<open>Lookups\<close>

definition isTableExist :: "('h, 'm) world \<Rightarrow> string \<Rightarrow> bool" where
  "isTableExist w table_name = (tables w table_name \<noteq> None)"

definition tryGetTable :: "('h, 'm) world \<Rightarrow> string \<Rightarrow> 'h option" where
  "tryGetTable w table_name = tables w table_name"

definition empty :: "('h, 'm) world \<Rightarrow> bool" where
  "empty w = (tables w = Map.empty)"

subsection \<open>attachTable, detachTable, removeTable, shutdown\<close>

text \<open>\<^verbatim>\<open>tables.emplace(table_name, table).second\<close> is false, and the map unchanged, when the key exists.\<close>

definition attachTable :: "('h, 'm) world \<Rightarrow> string \<Rightarrow> 'h \<Rightarrow> ('h, 'm, unit) result" where
  "attachTable w table_name tbl =
     (case tables w table_name of
        Some _ \<Rightarrow>
          (Inl (Exception (''Table '' @ name w @ ''.'' @ table_name @ '' already exists.'')
                  TABLE_ALREADY_EXISTS), w)
      | None \<Rightarrow> (Inr (), w\<lparr>tables := (tables w)(table_name \<mapsto> tbl)\<rparr>))"

definition detachTable :: "('h, 'm) world \<Rightarrow> string \<Rightarrow> ('h, 'm, 'h) result" where
  "detachTable w table_name =
     (case tables w table_name of
        None \<Rightarrow>
          (Inl (Exception (''Table '' @ name w @ ''.'' @ table_name @ '' doesn't exist.'')
                  TABLE_ALREADY_EXISTS), w)
      | Some res \<Rightarrow> (Inr res, w\<lparr>tables := (tables w)(table_name := None)\<rparr>))"

text \<open>
  \<open>esc\<close> is \<^verbatim>\<open>escapeForFileName\<close>, which is defined elsewhere. The descriptor's
  path is built without the \<^verbatim>\<open>.sql\<close> suffix, as the source builds it. An exception of
  \<^verbatim>\<open>attachTable\<close> inside the handler replaces the one being handled.
\<close>

definition removeTable :: "(string \<Rightarrow> string) \<Rightarrow> ('h, 'm) world \<Rightarrow> string \<Rightarrow> ('h, 'm, 'h) result" where
  "removeTable esc w table_name =
     (case detachTable w table_name of
        (Inl e, w1) \<Rightarrow> (Inl e, w1)
      | (Inr res, w1) \<Rightarrow>
          (let table_name_escaped = esc table_name;
               table_metadata_path = path w1 @ ''/'' @ table_name_escaped
           in case remove_file table_metadata_path w1 of
                (Inr _, w2) \<Rightarrow> (Inr res, w2)
              | (Inl e, w2) \<Rightarrow>
                  (case attachTable w2 table_name res of
                     (Inl e', w3) \<Rightarrow> (Inl e', w3)
                   | (Inr _, w3) \<Rightarrow> (Inl e, w3))))"

text \<open>
  \<^verbatim>\<open>for (auto & table : tables) table.second->shutdown(); tables.clear();\<close> The map is walked
  in the order of its keys.
\<close>

definition shutdown :: "('h, 'm) world \<Rightarrow> ('h, 'm) world" where
  "shutdown w =
     w\<lparr>shutdown_calls :=
          shutdown_calls w @ map (\<lambda>k. the (tables w k)) (sorted_list_of_set (dom (tables w))),
       tables := Map.empty\<rparr>"


subsection \<open>createTable\<close>

text \<open>
  The block of \<^verbatim>\<open>createTable\<close> that strips from the cloned query what an ATTACH does not
  need: \<^verbatim>\<open>create.attach = true; create.database.clear(); create.as_database.clear();
  create.as_table.clear(); create.if_not_exists = false; create.is_populate = false;
  if (engine != "View" && engine != "MaterializedView") create.select = nullptr;\<close>
\<close>

definition attach_form :: "string \<Rightarrow> 'm ASTCreateQuery_scheme \<Rightarrow> 'm ASTCreateQuery_scheme" where
  "attach_form engine create =
     (let c = create\<lparr>attach := True, database := [], as_database := [], as_table := [],
                     if_not_exists := False, is_populate := False\<rparr>
      in if engine \<noteq> ''View'' \<and> engine \<noteq> ''MaterializedView'' then c\<lparr>select := None\<rparr> else c)"

text \<open>
  The \<^verbatim>\<open>try\<close> block of \<^verbatim>\<open>createTable\<close>: insert the table, then publish the descriptor by
  renaming the temporary file.
\<close>

definition createTable_publish ::
  "('h, 'm) world \<Rightarrow> string \<Rightarrow> 'h \<Rightarrow> string \<Rightarrow> string \<Rightarrow> ('h, 'm, unit) result" where
  "createTable_publish w table_name tbl table_metadata_tmp_path table_metadata_path =
     (case tables w table_name of
        Some _ \<Rightarrow>
          (Inl (Exception (''Table '' @ name w @ ''.'' @ table_name @ '' already exists.'')
                  TABLE_ALREADY_EXISTS), w)
      | None \<Rightarrow>
          rename_file table_metadata_tmp_path table_metadata_path
            (w\<lparr>tables := (tables w)(table_name \<mapsto> tbl)\<rparr>))"

text \<open>
  \<open>esc\<close> is \<^verbatim>\<open>escapeForFileName\<close> and \<open>fmt\<close> is \<^verbatim>\<open>formatAST\<close>; both are defined
  elsewhere. \<open>query\<close> is the address of the caller's syntax tree. The clone is a local
  object (\<open>create\<close>), destroyed when the function returns, so it never enters \<open>asts\<close>.
  The handler (\<^verbatim>\<open>catch (...)\<close>) removes the temporary file and rethrows; an exception of
  that removal replaces the one being handled.
\<close>

definition createTable ::
  "(string \<Rightarrow> string) \<Rightarrow> ('m ASTCreateQuery_scheme \<Rightarrow> string) \<Rightarrow>
   ('h, 'm) world \<Rightarrow> string \<Rightarrow> 'h \<Rightarrow> nat \<Rightarrow> string \<Rightarrow> ('h, 'm, unit) result" where
  "createTable esc fmt w table_name tbl query engine =
     (case asts w query of
        None \<Rightarrow> (Inl UndefinedBehaviour, w)
      | Some OtherAST \<Rightarrow> (Inl (Exception ''Bad cast'' BAD_CAST), w)
      | Some (CreateQuery query_clone) \<Rightarrow>
          (case tables w table_name of
             Some _ \<Rightarrow>
               (Inl (Exception (''Table '' @ name w @ ''.'' @ table_name @ '' already exists.'')
                       TABLE_ALREADY_EXISTS), w)
           | None \<Rightarrow>
               (let create = attach_form engine query_clone;
                    statement = fmt create @ [CHR 0x0A];
                    table_name_escaped = esc table_name;
                    table_metadata_tmp_path = path w @ ''/'' @ table_name_escaped @ ''.sql.tmp'';
                    table_metadata_path = path w @ ''/'' @ table_name_escaped
                in case write_new_file table_metadata_tmp_path statement w of
                     (Inl e, w1) \<Rightarrow> (Inl e, w1)
                   | (Inr _, w1) \<Rightarrow>
                       (case createTable_publish w1 table_name tbl
                               table_metadata_tmp_path table_metadata_path of
                          (Inr _, w2) \<Rightarrow> (Inr (), w2)
                        | (Inl e, w2) \<Rightarrow>
                            (case remove_file table_metadata_tmp_path w2 of
                               (Inl e', w3) \<Rightarrow> (Inl e', w3)
                             | (Inr _, w3) \<Rightarrow> (Inl e, w3))))))"

subsection \<open>DatabaseOrdinaryIterator\<close>

text \<open>
  A position in a \<^verbatim>\<open>std::map\<close>: at a key, past the end (\<^verbatim>\<open>end()\<close>), or singular, which is
  what a default-constructed \<^verbatim>\<open>Tables::iterator\<close> is.
\<close>

datatype map_iterator = Singular | At string | PastEnd

record 'h DatabaseOrdinaryIterator =
  it_tables :: "string \<rightharpoonup> 'h"
  it :: map_iterator

text \<open>
  The constructor \<^verbatim>\<open>DatabaseOrdinaryIterator(Tables & tables_) : tables(tables_) {}\<close> copies
  the map and has no initialiser for \<^verbatim>\<open>it\<close>, which is therefore default-constructed.
\<close>

definition DatabaseOrdinaryIterator_ctor :: "(string \<rightharpoonup> 'h) \<Rightarrow> 'h DatabaseOrdinaryIterator" where
  "DatabaseOrdinaryIterator_ctor tables0 = \<lparr>it_tables = tables0, it = Singular\<rparr>"

definition getIterator :: "('h, 'm) world \<Rightarrow> 'h DatabaseOrdinaryIterator" where
  "getIterator w = DatabaseOrdinaryIterator_ctor (tables w)"

text \<open>The key that follows \<open>k\<close> in the map, or the end.\<close>

definition successor :: "(string \<rightharpoonup> 'h) \<Rightarrow> string \<Rightarrow> map_iterator" where
  "successor m k =
     (if {k' \<in> dom m. k < k'} = {} then PastEnd else At (Min {k' \<in> dom m. k < k'}))"

text \<open>
  \<^verbatim>\<open>next\<close>, \<^verbatim>\<open>isValid\<close>, \<^verbatim>\<open>name\<close> and \<^verbatim>\<open>table\<close> of the iterator. Incrementing, comparing or
  dereferencing a singular iterator is undefined, as is incrementing or dereferencing
  \<^verbatim>\<open>end()\<close>.
\<close>

definition iterator_next :: "'h DatabaseOrdinaryIterator \<Rightarrow> exn + 'h DatabaseOrdinaryIterator" where
  "iterator_next i =
     (case it i of
        At k \<Rightarrow> Inr (i\<lparr>it := successor (it_tables i) k\<rparr>)
      | _ \<Rightarrow> Inl UndefinedBehaviour)"

definition iterator_isValid :: "'h DatabaseOrdinaryIterator \<Rightarrow> exn + bool" where
  "iterator_isValid i =
     (case it i of
        Singular \<Rightarrow> Inl UndefinedBehaviour
      | At k \<Rightarrow> Inr True
      | PastEnd \<Rightarrow> Inr False)"

definition iterator_name :: "'h DatabaseOrdinaryIterator \<Rightarrow> exn + string" where
  "iterator_name i =
     (case it i of
        At k \<Rightarrow> Inr k
      | _ \<Rightarrow> Inl UndefinedBehaviour)"

definition iterator_table :: "'h DatabaseOrdinaryIterator \<Rightarrow> exn + 'h" where
  "iterator_table i =
     (case it i of
        At k \<Rightarrow> (case it_tables i k of Some h \<Rightarrow> Inr h | None \<Rightarrow> Inl UndefinedBehaviour)
      | _ \<Rightarrow> Inl UndefinedBehaviour)"

subsection \<open>Loading one table\<close>

text \<open>
  What \<^verbatim>\<open>loadTable\<close> calls and the source does not define: the parser
  (\<^verbatim>\<open>parseQuery(parser, begin, end, description)\<close>), the interpreter
  (\<^verbatim>\<open>InterpreterCreateQuery(ast, context).executeLoadExisting()\<close>, which builds the table and
  attaches it to its database), and the two texts that the handler reads from the
  exception it caught (\<^verbatim>\<open>e.displayText()\<close>, \<^verbatim>\<open>e.getStackTrace().toString()\<close>).
\<close>

record ('h, 'm) externals =
  parseQuery :: "string \<Rightarrow> string \<Rightarrow> exn + 'm ast"
  executeLoadExisting :: "'m ASTCreateQuery_scheme \<Rightarrow> ('h, 'm) world \<Rightarrow> ('h, 'm, unit) result"
  displayText :: "exn \<Rightarrow> string"
  stackTrace :: "exn \<Rightarrow> string"

definition executeCreateQuery ::
  "('h, 'm) externals \<Rightarrow> string \<Rightarrow> ('h, 'm) world \<Rightarrow> string \<Rightarrow> string \<Rightarrow> ('h, 'm, unit) result" where
  "executeCreateQuery ext query w database0 file_name =
     (case parseQuery ext query (''in file '' @ file_name) of
        Inl e \<Rightarrow> (Inl e, w)
      | Inr OtherAST \<Rightarrow> (Inl (Exception ''Bad cast'' BAD_CAST), w)
      | Inr (CreateQuery ast_create_query) \<Rightarrow>
          executeLoadExisting ext (ast_create_query\<lparr>attach := True, database := database0\<rparr>) w)"

text \<open>
  The file is read before the \<^verbatim>\<open>try\<close> block, and an empty file is removed before it, so
  an exception of either propagates as it is. The handler catches \<^verbatim>\<open>DB::Exception\<close> only.
\<close>

definition loadTable ::
  "('h, 'm) externals \<Rightarrow> ('h, 'm) world \<Rightarrow> string \<Rightarrow> string \<Rightarrow> string \<Rightarrow> ('h, 'm, unit) result" where
  "loadTable ext w path0 database0 table_escaped =
     (let path_to_metadata = path0 @ ''/'' @ table_escaped
      in case read_file path_to_metadata w of
           Inl e \<Rightarrow> (Inl e, w)
         | Inr s \<Rightarrow>
             if s = [] then remove_file path_to_metadata w
             else
               (case executeCreateQuery ext s w database0 path_to_metadata of
                  (Inl (Exception msg code), w') \<Rightarrow>
                    (Inl (Exception
                            (''Cannot create table from metadata file '' @ path_to_metadata
                               @ '', error: '' @ displayText ext (Exception msg code)
                               @ '', stack trace:'' @ [CHR 0x0A]
                               @ stackTrace ext (Exception msg code))
                            CANNOT_CREATE_TABLE_FROM_METADATA), w')
                | (r, w') \<Rightarrow> (r, w')))"

subsection \<open>The constructor: listing the directory\<close>

definition endsWith :: "string \<Rightarrow> string \<Rightarrow> bool" where
  "endsWith s suf =
     (length s \<ge> length suf \<and> drop (length s - length suf) s = suf)"

text \<open>\<^verbatim>\<open>name.at(0) == '.'\<close>, for a name that is not empty.\<close>

definition starts_with_dot :: "string \<Rightarrow> bool" where
  "starts_with_dot n = (case n of [] \<Rightarrow> False | c # _ \<Rightarrow> c = CHR ''.'')"

text \<open>
  The loop over the directory. \<open>entries\<close> are the names that \<^verbatim>\<open>Poco::DirectoryIterator\<close>
  yields, in its order. \<^verbatim>\<open>name().at(0)\<close> throws on an empty name.
\<close>

fun collect_file_names ::
  "string \<Rightarrow> string list \<Rightarrow> string list \<Rightarrow> ('h, 'm) world \<Rightarrow> ('h, 'm, string list) result" where
  "collect_file_names path0 [] file_names w = (Inr file_names, w)"
| "collect_file_names path0 (n # ns) file_names w =
     (case n of
        [] \<Rightarrow> (Inl OutOfRange, w)
      | c # _ \<Rightarrow>
          if c = CHR ''.'' then collect_file_names path0 ns file_names w
          else if endsWith n ''.sql.bak'' then collect_file_names path0 ns file_names w
          else if endsWith n ''.sql.tmp'' then
            (case remove_file (path0 @ ''/'' @ n) w of
               (Inl e, w') \<Rightarrow> (Inl e, w')
             | (Inr _, w') \<Rightarrow> collect_file_names path0 ns file_names w')
          else if endsWith n ''.sql'' then collect_file_names path0 ns (file_names @ [n]) w
          else
            (Inl (Exception (''Incorrect file extension: '' @ n @ '' in metadata directory '' @ path0)
                    INCORRECT_FILE_NAME), w))"

text \<open>The loop followed by \<^verbatim>\<open>std::sort(file_names.begin(), file_names.end())\<close>.\<close>

definition sorted_file_names ::
  "string \<Rightarrow> string list \<Rightarrow> ('h, 'm) world \<Rightarrow> ('h, 'm, string list) result" where
  "sorted_file_names path0 entries w =
     (case collect_file_names path0 entries [] w of
        (Inl e, w') \<Rightarrow> (Inl e, w')
      | (Inr file_names, w') \<Rightarrow> (Inr (sort file_names), w'))"

text \<open>\<^verbatim>\<open>0 == file_name.compare(0, strlen("%2Einner%2E"), "%2Einner%2E")\<close>\<close>

definition is_inner :: "string \<Rightarrow> bool" where
  "is_inner file_name = (take (length ''%2Einner%2E'') file_name = ''%2Einner%2E'')"

subsection \<open>The constructor: loading the tables\<close>

text \<open>
  The state of the loading is the world together with the names that \<^verbatim>\<open>loadTable\<close> has been
  called with, in call order. The second component is a record of the run; nothing
  reads it.
\<close>

definition loadTable_logged ::
  "('h, 'm) externals \<Rightarrow> string \<Rightarrow> string \<Rightarrow> string \<Rightarrow>
   ('h, 'm) world \<times> string list \<Rightarrow> (exn + unit) \<times> ('h, 'm) world \<times> string list" where
  "loadTable_logged ext path0 database0 t s =
     (case loadTable ext (fst s) path0 database0 t of
        (r, w') \<Rightarrow> (r, (w', snd s @ [t])))"

text \<open>
  A loop that loads tables one after another and leaves at the first exception: the loop
  over \<^verbatim>\<open>tables_to_load_first\<close>, and the loop of \<^verbatim>\<open>task_function\<close> from \<^verbatim>\<open>begin\<close> to \<^verbatim>\<open>end\<close>.
  The progress messages of \<^verbatim>\<open>task_function\<close> are logging only.
\<close>

fun load_each :: "(string \<Rightarrow> 's \<Rightarrow> (exn + unit) \<times> 's) \<Rightarrow> string list \<Rightarrow> 's \<Rightarrow> (exn + unit) \<times> 's" where
  "load_each L [] s = (Inr (), s)"
| "load_each L (t # ts) s =
     (case L t s of
        (Inl e, s') \<Rightarrow> (Inl e, s')
      | (Inr _, s') \<Rightarrow> load_each L ts s')"

definition bunch_size :: nat where
  "bunch_size = 100"

definition num_bunches :: "nat \<Rightarrow> nat" where
  "num_bunches total_tables = (total_tables + bunch_size - 1) div bunch_size"

text \<open>The range from \<^verbatim>\<open>begin\<close> to \<^verbatim>\<open>end\<close> that the constructor binds to task \<open>i\<close>.\<close>

definition bunch :: "string list \<Rightarrow> nat \<Rightarrow> string list" where
  "bunch tbls i =
     (let begin0 = i * bunch_size;
          end0 = (if i + 1 = num_bunches (length tbls) then length tbls else (i + 1) * bunch_size)
      in take (end0 - begin0) (drop begin0 tbls))"

text \<open>
  A \<^verbatim>\<open>std::packaged_task\<close> over a range of tables: the tables it has still to load, and the
  exception that its future holds once the task has thrown.
\<close>

record task =
  pending :: "string list"
  stored :: "exn option"

text \<open>Running a task to its end: the call \<^verbatim>\<open>tasks[i]()\<close>.\<close>

definition run_task :: "(string \<Rightarrow> 's \<Rightarrow> (exn + unit) \<times> 's) \<Rightarrow> task \<Rightarrow> 's \<Rightarrow> task \<times> 's" where
  "run_task L t s =
     (case load_each L (pending t) s of
        (Inl e, s') \<Rightarrow> (\<lparr>pending = [], stored = Some e\<rparr>, s')
      | (Inr _, s') \<Rightarrow> (t\<lparr>pending := []\<rparr>, s'))"

text \<open>One iteration of a task's loop, made by a thread of the pool.\<close>

definition step_task :: "(string \<Rightarrow> 's \<Rightarrow> (exn + unit) \<times> 's) \<Rightarrow> task \<Rightarrow> 's \<Rightarrow> task \<times> 's" where
  "step_task L t s =
     (case pending t of
        [] \<Rightarrow> (t, s)
      | x # xs \<Rightarrow>
          (case L x s of
             (Inl e, s') \<Rightarrow> (\<lparr>pending = [], stored = Some e\<rparr>, s')
           | (Inr _, s') \<Rightarrow> (t\<lparr>pending := xs\<rparr>, s')))"

text \<open>
  Without a pool, every task runs to its end when it is created, in the order of the
  indices. \<^verbatim>\<open>thread_pool->wait()\<close> returns when every task has run to its end.
\<close>

fun run_all :: "(string \<Rightarrow> 's \<Rightarrow> (exn + unit) \<times> 's) \<Rightarrow> task list \<Rightarrow> 's \<Rightarrow> task list \<times> 's" where
  "run_all L [] s = ([], s)"
| "run_all L (t # ts) s =
     (case run_task L t s of
        (t', s') \<Rightarrow> (case run_all L ts s' of (ts', s'') \<Rightarrow> (t' # ts', s'')))"

text \<open>
  With a pool, the threads interleave the loops of the tasks. A schedule lists, step by
  step, the index of the task whose loop makes its next iteration; an index without a
  task, or of a task that has ended, makes no step.
\<close>

fun run_schedule ::
  "(string \<Rightarrow> 's \<Rightarrow> (exn + unit) \<times> 's) \<Rightarrow> nat list \<Rightarrow> task list \<Rightarrow> 's \<Rightarrow> task list \<times> 's" where
  "run_schedule L [] ts s = (ts, s)"
| "run_schedule L (i # sched) ts s =
     (if i < length ts then
        (case step_task L (ts ! i) s of (t', s') \<Rightarrow> run_schedule L sched (ts[i := t']) s')
      else run_schedule L sched ts s)"

text \<open>
  \<open>pool\<close> is \<open>None\<close> for a null \<^verbatim>\<open>thread_pool\<close>, and \<open>Some sched\<close> for a pool whose threads
  happen to follow the schedule \<open>sched\<close> until the constructor waits for them.
\<close>

definition run_tasks ::
  "nat list option \<Rightarrow> (string \<Rightarrow> 's \<Rightarrow> (exn + unit) \<times> 's) \<Rightarrow> task list \<Rightarrow> 's \<Rightarrow> task list \<times> 's" where
  "run_tasks pool L ts s =
     (case pool of
        None \<Rightarrow> run_all L ts s
      | Some sched \<Rightarrow> (case run_schedule L sched ts s of (ts', s') \<Rightarrow> run_all L ts' s'))"

text \<open>\<^verbatim>\<open>for (auto & task : tasks) task.get_future().get();\<close> rethrows the first stored exception.\<close>

fun get_futures :: "exn option list \<Rightarrow> exn + unit" where
  "get_futures [] = Inr ()"
| "get_futures (None # fs) = get_futures fs"
| "get_futures (Some e # fs) = Inl e"

text \<open>
  The part of the constructor from the creation of the tasks to the end of the wait: the
  result is what the futures of the tasks hold.
\<close>

definition load_bunches ::
  "nat list option \<Rightarrow> (string \<Rightarrow> 's \<Rightarrow> (exn + unit) \<times> 's) \<Rightarrow> string list \<Rightarrow> 's \<Rightarrow>
   exn option list \<times> 's" where
  "load_bunches pool L tbls s =
     (case run_tasks pool L
             (map (\<lambda>i. \<lparr>pending = bunch tbls i, stored = None\<rparr>) [0..<num_bunches (length tbls)]) s of
        (tasks, s') \<Rightarrow> (map stored tasks, s'))"

text \<open>
  The constructor. It returns the exception it throws, if any, the world, and the names that
  \<^verbatim>\<open>loadTable\<close> was called with, in call order.
\<close>

definition DatabaseOrdinary_ctor ::
  "('h, 'm) externals \<Rightarrow> string list \<Rightarrow> nat list option \<Rightarrow> string \<Rightarrow> string \<Rightarrow> ('h, 'm) world \<Rightarrow>
   (exn + unit) \<times> ('h, 'm) world \<times> string list" where
  "DatabaseOrdinary_ctor ext entries pool name0 path0 w =
     (case sorted_file_names path0 entries (w\<lparr>name := name0, path := path0, tables := Map.empty\<rparr>) of
        (Inl e, w1) \<Rightarrow> (Inl e, w1, [])
      | (Inr file_names, w1) \<Rightarrow>
          (let tables_to_load_first = filter is_inner file_names;
               tbls = filter (\<lambda>f. \<not> is_inner f) file_names
           in case load_each (loadTable_logged ext path0 name0) tables_to_load_first (w1, []) of
                (Inl e, s2) \<Rightarrow> (Inl e, s2)
              | (Inr _, s2) \<Rightarrow>
                  (case load_bunches pool (loadTable_logged ext path0 name0) tbls s2 of
                     (futures, s3) \<Rightarrow> (get_futures futures, s3))))"

subsection \<open>An invariant of the tasks\<close>

text \<open>
  What holds of a task that was created over the range \<open>b\<close>, when \<open>lg\<close> are the names
  loaded so far: a task whose future holds no exception has loaded the tables of \<open>b\<close> that
  it has no longer to load; a task whose future holds \<open>e\<close> has ended, has loaded the first
  table of \<open>b\<close>, and \<open>e\<close> is what the load of one of the tables of \<open>b\<close> raised
  (\<open>raises L x e\<close>: in some state, loading \<open>x\<close> raises \<open>e\<close>). \<open>logs_calls L\<close> says that
  the loading function \<open>L\<close> adds the name it is called with to the names loaded so far.
\<close>

definition logs_calls ::
  "(string \<Rightarrow> 'w \<times> string list \<Rightarrow> (exn + unit) \<times> 'w \<times> string list) \<Rightarrow> bool" where
  "logs_calls L = (\<forall>t s r s'. L t s = (r, s') \<longrightarrow> snd s' = snd s @ [t])"

definition raises :: "(string \<Rightarrow> 's \<Rightarrow> (exn + unit) \<times> 's) \<Rightarrow> string \<Rightarrow> exn \<Rightarrow> bool" where
  "raises L x e = (\<exists>s0 s1. L x s0 = (Inl e, s1))"

definition task_ok ::
  "(string \<Rightarrow> 's \<Rightarrow> (exn + unit) \<times> 's) \<Rightarrow> string list \<Rightarrow> string list \<Rightarrow> task \<Rightarrow> bool" where
  "task_ok L lg b t =
     (case stored t of
        None \<Rightarrow> (\<exists>d. b = d @ pending t \<and> set d \<subseteq> set lg)
      | Some e \<Rightarrow> pending t = [] \<and> b \<noteq> [] \<and> hd b \<in> set lg
                  \<and> (\<exists>x\<in>set b. raises L x e))"

subsection \<open>Concrete states\<close>

text \<open>An empty catalog \<open>db\<close> over the directory \<open>/meta\<close>, on an empty and healthy file system.\<close>

definition world0 :: "(nat, unit) world" where
  "world0 = \<lparr>name = ''db'', path = ''/meta'', tables = Map.empty, files = Map.empty,
             faulty = {}, asts = Map.empty, shutdown_calls = []\<rparr>"

text \<open>A definition as a client submits it: \<^verbatim>\<open>CREATE TABLE IF NOT EXISTS src.t AS other.o SELECT ...\<close>\<close>

definition query0 :: "ASTCreateQuery" where
  "query0 = \<lparr>attach = False, if_not_exists = True, is_populate = True, database = ''src'',
             table = ''t'', as_database = ''other'', as_table = ''o'', select = Some ''SELECT 1''\<rparr>"

text \<open>A formatter for the examples: it prints the fields of the definition one after another.\<close>

definition fmt0 :: "ASTCreateQuery \<Rightarrow> string" where
  "fmt0 c =
     (if attach c then ''ATTACH'' else ''CREATE'') @ '' '' @ database c @ ''.'' @ table c
       @ (case select c of None \<Rightarrow> [] | Some s \<Rightarrow> '' AS '' @ s)"

text \<open>
  \<open>world0\<close> with the client's definition at address 0, on a file system that refuses to
  rename the temporary descriptor of table \<open>t\<close> to its published name.
\<close>

definition world_rename_refused :: "(nat, unit) world" where
  "world_rename_refused =
     world0\<lparr>asts := [0 \<mapsto> CreateQuery query0],
            faulty := {OpRename ''/meta/t.sql.tmp'' ''/meta/t''}\<rparr>"

text \<open>\<open>world0\<close> with the client's definition at address 0, on a healthy file system.\<close>

definition world_query :: "(nat, unit) world" where
  "world_query = world0\<lparr>asts := [0 \<mapsto> CreateQuery query0]\<rparr>"

text \<open>A catalog holding table \<open>t\<close> with handle 7, whose descriptor is not on disk.\<close>

definition world_attached :: "(nat, unit) world" where
  "world_attached = world0\<lparr>tables := [''t'' \<mapsto> 7]\<rparr>"

text \<open>
  A parser and an interpreter for the examples. The parser fails on the text \<open>bad\<close> and
  otherwise reads the text as the name of the table; the interpreter attaches the table
  under that name, with the length of the name as handle.
\<close>

definition ext0 :: "(nat, unit) externals" where
  "ext0 =
     \<lparr>parseQuery = (\<lambda>text description.
        if text = ''bad'' then Inl (Exception (''Syntax error '' @ description) SYNTAX_ERROR)
        else Inr (CreateQuery (query0\<lparr>table := text\<rparr>))),
      executeLoadExisting = (\<lambda>q w.
        case tables w (table q) of
          Some _ \<Rightarrow> (Inl (Exception ''Table already exists'' TABLE_ALREADY_EXISTS), w)
        | None \<Rightarrow> (Inr (), w\<lparr>tables := (tables w)(table q \<mapsto> length (table q))\<rparr>)),
      displayText = (\<lambda>e. case e of Exception msg code \<Rightarrow> ''DB::Exception: '' @ msg | _ \<Rightarrow> []),
      stackTrace = (\<lambda>e. [])\<rparr>"

text \<open>
  A directory with a dot entry, two descriptors, a stale temporary file, a backup, an
  empty descriptor, a descriptor of an inner table and one that does not parse.
\<close>

definition entries0 :: "string list" where
  "entries0 = [''.svn'', ''b.sql'', ''x.sql.tmp'', ''a.sql'', ''old.sql.bak'', ''y.sql'',
               ''%2Einner%2Ev.sql'']"

definition world_dir :: "(nat, unit) world" where
  "world_dir =
     world0\<lparr>files := [''/meta/.svn'' \<mapsto> ''d'', ''/meta/b.sql'' \<mapsto> ''tb'',
                      ''/meta/x.sql.tmp'' \<mapsto> ''tx'', ''/meta/a.sql'' \<mapsto> ''ta'',
                      ''/meta/old.sql.bak'' \<mapsto> ''to'', ''/meta/y.sql'' \<mapsto> [],
                      ''/meta/%2Einner%2Ev.sql'' \<mapsto> ''tv'']\<rparr>"





section \<open>Properties\<close>

subsection \<open>attachTable and detachTable\<close>

lemma attachTable_fresh:
  "tables w n = None \<Longrightarrow> attachTable w n h = (Inr (), w\<lparr>tables := (tables w)(n \<mapsto> h)\<rparr>)"
  by (simp add: attachTable_def)

lemma detachTable_present:
  "tables w n = Some h \<Longrightarrow> detachTable w n = (Inr h, w\<lparr>tables := (tables w)(n := None)\<rparr>)"
  by (simp add: detachTable_def)

lemma detachTable_absent:
  "tables w n = None \<Longrightarrow>
   detachTable w n =
     (Inl (Exception (''Table '' @ name w @ ''.'' @ n @ '' doesn't exist.'') TABLE_ALREADY_EXISTS), w)"
  by (simp add: detachTable_def)

lemma tables_restored: "tables w n = None \<Longrightarrow> w\<lparr>tables := ((tables w)(n \<mapsto> h))(n := None)\<rparr> = w"
proof -
  assume "tables w n = None"
  then have "((tables w)(n \<mapsto> h))(n := None) = tables w"
    by (simp add: fun_upd_idem)
  then show ?thesis by simp
qed

text \<open>
  Claim C10. In a state whose mapping has no entry for \<open>n\<close>, \<open>attachTable n h\<close> succeeds, the
  following \<open>detachTable n\<close> succeeds and returns exactly \<open>h\<close>, and the state after both calls
  is the state before them: the mapping is restored, no file has changed, and the record
  of shutdown calls is the same, so neither call has shut the handle down.
\<close>

theorem attach_detach_roundtrip:
  assumes "tables w n = None"
  shows "\<exists>w1. attachTable w n h = (Inr (), w1) \<and> detachTable w1 n = (Inr h, w)
              \<and> shutdown_calls w1 = shutdown_calls w"
proof -
  let ?w1 = "w\<lparr>tables := (tables w)(n \<mapsto> h)\<rparr>"
  have a: "attachTable w n h = (Inr (), ?w1)"
    using assms by (rule attachTable_fresh)
  have "tables ?w1 n = Some h" by simp
  then have "detachTable ?w1 n = (Inr h, ?w1\<lparr>tables := (tables ?w1)(n := None)\<rparr>)"
    by (rule detachTable_present)
  moreover have "?w1\<lparr>tables := (tables ?w1)(n := None)\<rparr> = w"
    using tables_restored [OF assms, of h] by simp
  ultimately have d: "detachTable ?w1 n = (Inr h, w)" by simp
  from a d show ?thesis by simp
qed

theorem attach_detach_roundtrip_witness:
  "tables world0 ''t'' = None \<and>
   (\<exists>w1. attachTable world0 ''t'' 7 = (Inr (), w1) \<and> detachTable w1 ''t'' = (Inr 7, world0)
         \<and> shutdown_calls w1 = shutdown_calls world0)"
  using attach_detach_roundtrip [of world0 "''t''" 7] by (simp add: world0_def)

text \<open>
  Claim C9, at the empty catalog \<open>db\<close>. \<open>detachTable\<close> of the absent name \<open>t\<close> leaves the
  state unchanged, but the exception it raises carries the code \<open>TABLE_ALREADY_EXISTS\<close>
  under the message "doesn't exist"; \<open>UNKNOWN_TABLE\<close>, which the file declares, is never
  used.
\<close>

theorem detachTable_absent_code:
  "detachTable world0 ''t'' =
     (Inl (Exception ''Table db.t doesn't exist.'' TABLE_ALREADY_EXISTS), world0)"
  by (simp add: detachTable_def world0_def)

text \<open>What \<open>detachTable\<close> does to the state holds as the claim says: only the entry goes.\<close>

lemma detachTable_effect:
  "detachTable w n = (r, w') \<Longrightarrow>
   files w' = files w \<and> faulty w' = faulty w \<and> asts w' = asts w
   \<and> shutdown_calls w' = shutdown_calls w
   \<and> (case tables w n of
        None \<Rightarrow> w' = w \<and> (\<exists>e. r = Inl e)
      | Some h \<Rightarrow> r = Inr h \<and> tables w' = (tables w)(n := None))"
  by (auto simp: detachTable_def split: option.splits)

subsection \<open>removeTable\<close>

lemma remove_file_unchanged_on_error: "remove_file p w = (Inl e, w') \<Longrightarrow> w' = w"
  by (auto simp: remove_file_def split: option.splits if_splits)

text \<open>
  Claim C5. For a name \<open>n\<close> that the mapping binds to \<open>h\<close>, \<open>removeTable\<close> detaches the entry
  and deletes the descriptor. When the deletion fails, the error of the deletion
  propagates and the state is the one before the call: \<open>n\<close> is bound to \<open>h\<close> again and
  every other entry is as it was. When the deletion succeeds, \<open>h\<close> is returned, the entry
  is gone and so is the file.
\<close>

theorem removeTable_rollback:
  assumes "tables w n = Some h"
  shows "removeTable esc w n =
           (case remove_file (path w @ ''/'' @ esc n) (w\<lparr>tables := (tables w)(n := None)\<rparr>) of
              (Inl e, _) \<Rightarrow> (Inl e, w)
            | (Inr _, w2) \<Rightarrow> (Inr h, w2))"
proof -
  let ?w1 = "w\<lparr>tables := (tables w)(n := None)\<rparr>"
  let ?p = "path w @ ''/'' @ esc n"
  have d: "detachTable w n = (Inr h, ?w1)"
    using assms by (rule detachTable_present)
  obtain r w2 where rm: "remove_file ?p ?w1 = (r, w2)"
    by (cases "remove_file ?p ?w1")
  show ?thesis
  proof (cases r)
    case (Inl e)
    with rm have w2: "w2 = ?w1"
      by (simp add: remove_file_unchanged_on_error)
    have "attachTable ?w1 n h = (Inr (), ?w1\<lparr>tables := (tables ?w1)(n \<mapsto> h)\<rparr>)"
      by (rule attachTable_fresh) simp
    moreover have "(tables ?w1)(n \<mapsto> h) = tables w"
      using assms by (auto simp: fun_eq_iff)
    ultimately have "attachTable ?w1 n h = (Inr (), w)" by simp
    with d rm Inl w2 show ?thesis
      by (simp add: removeTable_def)
  next
    case (Inr u)
    with d rm show ?thesis
      by (simp add: removeTable_def)
  qed
qed

theorem removeTable_rollback_witness:
  "tables world_attached ''t'' = Some 7 \<and>
   removeTable id world_attached ''t'' = (Inl (FileException (OpRemove ''/meta/t'')), world_attached)"
  using removeTable_rollback [of world_attached "''t''" 7 id]
  by (simp add: world_attached_def world0_def remove_file_def)

subsection \<open>createTable\<close>

text \<open>
  Claim C1, at the empty catalog on a file system that refuses the rename. \<open>createTable\<close>
  writes the temporary file, inserts \<open>t\<close> into the mapping, fails to rename, removes the
  temporary file and rethrows. No descriptor of \<open>t\<close> is on disk afterwards, but the entry
  this call inserted is still in the mapping.
\<close>

theorem createTable_failed_rename_keeps_entry:
  "tables world_rename_refused ''t'' = None \<and>
   fst (createTable id fmt0 world_rename_refused ''t'' 7 0 ''Log'')
     = Inl (FileException (OpRename ''/meta/t.sql.tmp'' ''/meta/t'')) \<and>
   tables (snd (createTable id fmt0 world_rename_refused ''t'' 7 0 ''Log'')) ''t'' = Some 7 \<and>
   files (snd (createTable id fmt0 world_rename_refused ''t'' 7 0 ''Log'')) ''/meta/t.sql.tmp'' = None \<and>
   files (snd (createTable id fmt0 world_rename_refused ''t'' 7 0 ''Log'')) ''/meta/t'' = None"
  by (simp add: createTable_def world_rename_refused_def world0_def query0_def fmt0_def Let_def
      attach_form_def write_new_file_def createTable_publish_def rename_file_def remove_file_def)

text \<open>
  The same in any state: when the temporary file can be written and removed and the
  rename is refused, the call fails and leaves the entry it inserted.
\<close>

lemma createTable_rename_refused:
  assumes "asts w query = Some (CreateQuery q)" and "tables w n = None"
    and "files w (path w @ ''/'' @ esc n @ ''.sql.tmp'') = None"
    and "OpCreate (path w @ ''/'' @ esc n @ ''.sql.tmp'') \<notin> faulty w"
    and "OpRemove (path w @ ''/'' @ esc n @ ''.sql.tmp'') \<notin> faulty w"
    and "OpRename (path w @ ''/'' @ esc n @ ''.sql.tmp'') (path w @ ''/'' @ esc n) \<in> faulty w"
  shows "createTable esc fmt w n h query engine =
           (Inl (FileException
                   (OpRename (path w @ ''/'' @ esc n @ ''.sql.tmp'') (path w @ ''/'' @ esc n))),
            w\<lparr>tables := (tables w)(n \<mapsto> h)\<rparr>)"
proof -
  let ?tmp = "path w @ ''/'' @ esc n @ ''.sql.tmp''"
  have "(files w)(?tmp := None) = files w"
    using assms(3) by (simp add: fun_upd_idem)
  with assms show ?thesis
    by (simp add: createTable_def Let_def write_new_file_def createTable_publish_def
        rename_file_def remove_file_def)
qed

lemma attach_form_fields:
  "attach (attach_form engine q) \<and> database (attach_form engine q) = []
   \<and> as_database (attach_form engine q) = [] \<and> as_table (attach_form engine q) = []
   \<and> \<not> if_not_exists (attach_form engine q) \<and> \<not> is_populate (attach_form engine q)
   \<and> select (attach_form engine q) =
       (if engine = ''View'' \<or> engine = ''MaterializedView'' then select q else None)
   \<and> table (attach_form engine q) = table q
   \<and> ASTCreateQuery.more (attach_form engine q) = ASTCreateQuery.more q"
  by (simp add: attach_form_def Let_def)

lemma write_new_file_frame:
  "write_new_file p c w = (r, w') \<Longrightarrow>
   asts w' = asts w \<and> tables w' = tables w \<and> path w' = path w \<and> faulty w' = faulty w"
  by (auto simp: write_new_file_def split: option.splits if_splits)

lemma remove_file_frame:
  "remove_file p w = (r, w') \<Longrightarrow>
   asts w' = asts w \<and> tables w' = tables w \<and> path w' = path w \<and> faulty w' = faulty w"
  by (auto simp: remove_file_def split: option.splits if_splits)

lemma createTable_publish_asts: "createTable_publish w n h p q = (r, w') \<Longrightarrow> asts w' = asts w"
  by (auto simp: createTable_publish_def rename_file_def split: option.splits if_splits)

lemma createTable_publish_content:
  "createTable_publish w n h p q = (Inr u, w') \<Longrightarrow> files w' q = files w p"
  by (auto simp: createTable_publish_def rename_file_def split: option.splits if_splits)

lemma write_new_file_content: "write_new_file p c w = (Inr u, w') \<Longrightarrow> files w' p = Some c"
  by (auto simp: write_new_file_def split: option.splits if_splits)

lemma createTable_asts: "asts (snd (createTable esc fmt w n h query engine)) = asts w"
  by (auto simp: createTable_def Let_def split: option.splits ast.splits prod.splits sum.splits
      dest!: write_new_file_frame remove_file_frame createTable_publish_asts)

lemma createTable_success_content:
  assumes "asts w query = Some (CreateQuery q)"
    and "createTable esc fmt w n h query engine = (Inr u, w')"
  shows "files w' (path w @ ''/'' @ esc n) = Some (fmt (attach_form engine q) @ [CHR 0x0A])"
  using assms
  by (auto simp: createTable_def Let_def split: option.splits prod.splits sum.splits
      dest!: write_new_file_content createTable_publish_content)

text \<open>
  Claim C6. \<open>createTable\<close> leaves every syntax tree that callers hold as it was, the
  caller's definition among them: the stripping acts on the clone. When the call
  succeeds, the published descriptor holds the text of a definition \<open>c\<close>, followed by a
  newline, where \<open>c\<close> has \<open>attach\<close> set, the database, as-database and as-table fields empty,
  the if-not-exists and populate flags cleared, the select clause of the caller's
  definition if the engine is \<open>View\<close> or \<open>MaterializedView\<close> and none otherwise, and every
  other field as in the caller's definition.
\<close>

theorem createTable_persists_attach_form:
  assumes "asts w query = Some (CreateQuery q)"
  shows "asts (snd (createTable esc fmt w n h query engine)) = asts w \<and>
         (\<forall>w'. createTable esc fmt w n h query engine = (Inr (), w') \<longrightarrow>
            (\<exists>c. files w' (path w @ ''/'' @ esc n) = Some (fmt c @ [CHR 0x0A])
               \<and> attach c \<and> database c = [] \<and> as_database c = [] \<and> as_table c = []
               \<and> \<not> if_not_exists c \<and> \<not> is_populate c
               \<and> select c =
                   (if engine = ''View'' \<or> engine = ''MaterializedView'' then select q else None)
               \<and> table c = table q
               \<and> ASTCreateQuery.more c = ASTCreateQuery.more q))"
proof (intro conjI allI impI)
  show "asts (snd (createTable esc fmt w n h query engine)) = asts w"
    by (rule createTable_asts)
next
  fix w'
  assume ok: "createTable esc fmt w n h query engine = (Inr (), w')"
  let ?c = "attach_form engine q"
  have "files w' (path w @ ''/'' @ esc n) = Some (fmt ?c @ [CHR 0x0A])"
    using assms ok by (rule createTable_success_content)
  with attach_form_fields [of engine q]
  show "\<exists>c. files w' (path w @ ''/'' @ esc n) = Some (fmt c @ [CHR 0x0A])
          \<and> attach c \<and> database c = [] \<and> as_database c = [] \<and> as_table c = []
          \<and> \<not> if_not_exists c \<and> \<not> is_populate c
          \<and> select c =
              (if engine = ''View'' \<or> engine = ''MaterializedView'' then select q else None)
          \<and> table c = table q
          \<and> ASTCreateQuery.more c = ASTCreateQuery.more q"
    by blast
qed

theorem createTable_persists_attach_form_witness:
  "asts world_query 0 = Some (CreateQuery query0) \<and>
   asts (snd (createTable id fmt0 world_query ''t'' 7 0 ''View'')) = asts world_query \<and>
   fst (createTable id fmt0 world_query ''t'' 7 0 ''View'') = Inr () \<and>
   files (snd (createTable id fmt0 world_query ''t'' 7 0 ''View'')) ''/meta/t''
     = Some (''ATTACH .t AS SELECT 1'' @ [CHR 0x0A]) \<and>
   files (snd (createTable id fmt0 world_query ''t'' 7 0 ''Log'')) ''/meta/t''
     = Some (''ATTACH .t'' @ [CHR 0x0A])"
  using createTable_persists_attach_form [of world_query 0 query0 id fmt0 "''t''" 7 "''View''"]
  by (simp add: createTable_def world_query_def world0_def query0_def fmt0_def Let_def
      attach_form_def write_new_file_def createTable_publish_def rename_file_def)

subsection \<open>getIterator\<close>

text \<open>The iterator holds the mapping as it was when \<open>getIterator\<close> was called.\<close>

lemma getIterator_copy: "it_tables (getIterator w) = tables w"
  by (simp add: getIterator_def DatabaseOrdinaryIterator_ctor_def)

text \<open>Its position is singular in every state, so it cannot be asked whether it is valid.\<close>

lemma getIterator_singular:
  "it (getIterator w) = Singular \<and> iterator_isValid (getIterator w) = Inl UndefinedBehaviour"
  by (simp add: getIterator_def DatabaseOrdinaryIterator_ctor_def iterator_isValid_def)

text \<open>
  Claim C7, at a catalog with the one table \<open>a\<close>. The iterator that \<open>getIterator\<close> returns
  holds the copy of the mapping, but its position was never set to the beginning of the
  copy: it is singular, and asking whether it is valid, for its name, for its table or
  for the next position is undefined. The iteration yields no entry of the copy.
\<close>

theorem getIterator_position_singular:
  "it (getIterator (world0\<lparr>tables := [''a'' \<mapsto> 1]\<rparr>)) = Singular \<and>
   iterator_isValid (getIterator (world0\<lparr>tables := [''a'' \<mapsto> 1]\<rparr>)) = Inl UndefinedBehaviour \<and>
   iterator_name (getIterator (world0\<lparr>tables := [''a'' \<mapsto> 1]\<rparr>)) = Inl UndefinedBehaviour \<and>
   iterator_table (getIterator (world0\<lparr>tables := [''a'' \<mapsto> 1]\<rparr>)) = Inl UndefinedBehaviour \<and>
   iterator_next (getIterator (world0\<lparr>tables := [''a'' \<mapsto> 1]\<rparr>)) = Inl UndefinedBehaviour"
  by (simp add: getIterator_def DatabaseOrdinaryIterator_ctor_def iterator_isValid_def
      iterator_name_def iterator_table_def iterator_next_def)

subsection \<open>Listing the directory\<close>

lemma endsWith_last: "endsWith n suf \<Longrightarrow> suf \<noteq> [] \<Longrightarrow> last n = last suf"
proof -
  assume a: "endsWith n suf" and b: "suf \<noteq> []"
  from a have "n = take (length n - length suf) n @ suf"
    by (metis append_take_drop_id endsWith_def)
  then have "last n = last (take (length n - length suf) n @ suf)" by simp
  with b show ?thesis by simp
qed

lemma sql_not_bak: "endsWith n ''.sql'' \<Longrightarrow> \<not> endsWith n ''.sql.bak''"
  by (auto dest!: endsWith_last)

lemma sql_not_tmp: "endsWith n ''.sql'' \<Longrightarrow> \<not> endsWith n ''.sql.tmp''"
  by (auto dest!: endsWith_last)

lemma remove_file_ok:
  "remove_file p w = (Inr u, w') \<Longrightarrow> w' = w\<lparr>files := (files w)(p := None)\<rparr>"
  by (auto simp: remove_file_def split: option.splits if_splits)

lemma collect_file_names_ok:
  "collect_file_names d ns acc w = (Inr names, w') \<Longrightarrow>
     names = acc @ filter (\<lambda>n. \<not> starts_with_dot n \<and> endsWith n ''.sql'') ns
   \<and> (\<forall>n\<in>set ns. n \<noteq> [] \<and> (starts_with_dot n \<or> endsWith n ''.sql.bak''
          \<or> endsWith n ''.sql.tmp'' \<or> endsWith n ''.sql''))
   \<and> (\<forall>p. files w' p =
          (if \<exists>n\<in>set ns. \<not> starts_with_dot n \<and> endsWith n ''.sql.tmp'' \<and> p = d @ ''/'' @ n
           then None else files w p))
   \<and> w'\<lparr>files := files w\<rparr> = w"
proof (induction ns arbitrary: acc w)
  case Nil
  then show ?case by auto
next
  case (Cons n ns)
  show ?case
  proof (cases n)
    case Nil
    with Cons.prems show ?thesis by simp
  next
    case (Cons c cs)
    note n = Cons
    show ?thesis
    proof (cases "c = CHR ''.''")
      case True
      then have d: "starts_with_dot n" using n by (simp add: starts_with_dot_def)
      from True n Cons.prems have "collect_file_names d ns acc w = (Inr names, w')" by simp
      from Cons.IH [OF this] d n show ?thesis
        by simp
    next
      case nodot: False
      then have nd: "\<not> starts_with_dot n" using n by (simp add: starts_with_dot_def)
      show ?thesis
      proof (cases "endsWith n ''.sql.bak''")
        case True
        then have no: "\<not> endsWith n ''.sql.tmp''" "\<not> endsWith n ''.sql''"
          by (auto dest!: endsWith_last)
        from True n nodot Cons.prems
        have "collect_file_names d ns acc w = (Inr names, w')" by simp
        from Cons.IH [OF this] show ?thesis using True nd n no by simp
      next
        case nobak: False
        show ?thesis
        proof (cases "endsWith n ''.sql.tmp''")
          case True
          then have nosql: "\<not> endsWith n ''.sql''"
            by (auto dest!: endsWith_last)
          from True n nodot nobak Cons.prems obtain w1 where
            rm: "remove_file (d @ ''/'' @ n) w = (Inr (), w1)"
            and rest: "collect_file_names d ns acc w1 = (Inr names, w')"
            by (auto split: prod.splits sum.splits)
          from rm have w1: "w1 = w\<lparr>files := (files w)(d @ ''/'' @ n := None)\<rparr>"
            by (rule remove_file_ok)
          note ih = Cons.IH [OF rest]
          have a: "names = acc @ filter (\<lambda>n. \<not> starts_with_dot n \<and> endsWith n ''.sql'') (n # ns)"
            using ih nosql by simp
          have b: "\<forall>m\<in>set (n # ns). m \<noteq> [] \<and> (starts_with_dot m \<or> endsWith m ''.sql.bak''
               \<or> endsWith m ''.sql.tmp'' \<or> endsWith m ''.sql'')"
            using ih True n by simp
          have c: "\<forall>p. files w' p =
              (if \<exists>m\<in>set (n # ns). \<not> starts_with_dot m \<and> endsWith m ''.sql.tmp'' \<and> p = d @ ''/'' @ m
               then None else files w p)"
            using ih True nd w1 by auto
          from ih have "w'\<lparr>files := files w1\<rparr> = w1" by simp
          then have "(w'\<lparr>files := files w1\<rparr>)\<lparr>files := files w\<rparr> = w1\<lparr>files := files w\<rparr>"
            by simp
          then have d: "w'\<lparr>files := files w\<rparr> = w" using w1 by simp
          from a b c d show ?thesis by blast
        next
          case notmp: False
          show ?thesis
          proof (cases "endsWith n ''.sql''")
            case True
            with n nodot nobak notmp Cons.prems
            have "collect_file_names d ns (acc @ [n]) w = (Inr names, w')" by simp
            from Cons.IH [OF this] n nd True notmp show ?thesis
              by simp
          next
            case False
            with n nodot nobak notmp Cons.prems show ?thesis by simp
          qed
        qed
      qed
    qed
  qed
qed





subsection \<open>loadTable\<close>

text \<open>
  Claim C8. When the descriptor of a table is an empty file that can be read and deleted,
  \<open>loadTable\<close> raises nothing, and the world it leaves differs from the world before in
  one point: the file is gone. The mapping has the entries of before, so no table was
  added, and the loop that called \<open>loadTable\<close> goes on to the next table.
\<close>

theorem loadTable_empty_descriptor:
  assumes "files w (path0 @ ''/'' @ t) = Some []"
    and "OpRead (path0 @ ''/'' @ t) \<notin> faulty w"
    and "OpRemove (path0 @ ''/'' @ t) \<notin> faulty w"
  shows "loadTable ext w path0 database0 t
           = (Inr (), w\<lparr>files := (files w)(path0 @ ''/'' @ t := None)\<rparr>)
         \<and> tables (snd (loadTable ext w path0 database0 t)) = tables w
         \<and> files (snd (loadTable ext w path0 database0 t)) (path0 @ ''/'' @ t) = None"
  using assms by (simp add: loadTable_def read_file_def remove_file_def)

theorem loadTable_empty_descriptor_witness:
  "files world_dir (''/meta'' @ ''/'' @ ''y.sql'') = Some [] \<and>
   fst (loadTable ext0 world_dir ''/meta'' ''db'' ''y.sql'') = Inr () \<and>
   tables (snd (loadTable ext0 world_dir ''/meta'' ''db'' ''y.sql'')) = tables world_dir \<and>
   files (snd (loadTable ext0 world_dir ''/meta'' ''db'' ''y.sql'')) ''/meta/y.sql'' = None"
  using loadTable_empty_descriptor [of world_dir "''/meta''" "''y.sql''" ext0 "''db''"]
  by (simp add: world_dir_def world0_def)

subsection \<open>Loading the tables\<close>

lemma loadTable_logged_logs: "logs_calls (loadTable_logged ext p n)"
  by (auto simp: logs_calls_def loadTable_logged_def split: prod.splits)

lemma logs_callsD: "logs_calls L \<Longrightarrow> L t s = (r, s') \<Longrightarrow> snd s' = snd s @ [t]"
  unfolding logs_calls_def by blast

lemma load_each_log:
  assumes logs: "logs_calls L"
    and run: "load_each L xs s = (r, s')"
  shows "(case r of
            Inr _ \<Rightarrow> snd s' = snd s @ xs
          | Inl e \<Rightarrow> (\<exists>k<length xs. snd s' = snd s @ take (Suc k) xs
                        \<and> raises L (xs ! k) e))"
  using run
proof (induction xs arbitrary: s)
  case Nil
  then show ?case by auto
next
  case (Cons x xs)
  obtain r1 s1 where l: "L x s = (r1, s1)" by (cases "L x s")
  from logs_callsD [OF logs l] have lg: "snd s1 = snd s @ [x]" .
  show ?case
  proof (cases r1)
    case (Inl e)
    with l Cons.prems have "r = Inl e" "s' = s1" by auto
    moreover have "raises L x e" using l Inl unfolding raises_def by blast
    ultimately show ?thesis using lg
      by (auto intro!: exI [of _ 0])
  next
    case (Inr u)
    with l Cons.prems have rest: "load_each L xs s1 = (r, s')" by simp
    note ih = Cons.IH [OF rest]
    show ?thesis
    proof (cases r)
      case (Inl e)
      with ih obtain k where k: "k < length xs" "snd s' = snd s1 @ take (Suc k) xs"
        "raises L (xs ! k) e"
        by auto
      then have "Suc k < length (x # xs)" "snd s' = snd s @ take (Suc (Suc k)) (x # xs)"
        "raises L ((x # xs) ! Suc k) e"
        using lg by auto
      with Inl show ?thesis by (auto intro!: exI [of _ "Suc k"])
    next
      case (Inr v)
      with ih lg show ?thesis by simp
    qed
  qed
qed

lemma task_ok_mono: "task_ok L lg b t \<Longrightarrow> set lg \<subseteq> set lg' \<Longrightarrow> task_ok L lg' b t"
  by (auto simp: task_ok_def split: option.splits)

lemma step_task_ok:
  assumes logs: "logs_calls L"
    and ok: "task_ok L (snd s) b t"
    and step: "step_task L t s = (t', s')"
  shows "task_ok L (snd s') b t' \<and> (\<exists>ys. snd s' = snd s @ ys \<and> set ys \<subseteq> set (pending t))
         \<and> set (pending t') \<subseteq> set (pending t)"
proof (cases "pending t")
  case Nil
  with step ok show ?thesis by (simp add: step_task_def)
next
  case (Cons x xs)
  obtain r1 s1 where l: "L x s = (r1, s1)" by (cases "L x s")
  from logs_callsD [OF logs l] have lg: "snd s1 = snd s @ [x]" .
  show ?thesis
  proof (cases "stored t")
    case (Some e)
    with ok Cons show ?thesis by (simp add: task_ok_def)
  next
    case None
    with ok obtain d where d: "b = d @ pending t" "set d \<subseteq> set (snd s)"
      by (auto simp: task_ok_def)
    show ?thesis
    proof (cases r1)
      case (Inl e)
      with step Cons l have t': "t' = \<lparr>pending = [], stored = Some e\<rparr>" and s': "s' = s1"
        by (auto simp: step_task_def)
      have "hd b \<in> set (snd s1)"
        using d Cons lg by (cases d) auto
      moreover have "raises L x e" using l Inl unfolding raises_def by blast
      then have "\<exists>x\<in>set b. raises L x e"
        using d Cons by auto
      ultimately have "task_ok L (snd s') b t'"
        using t' s' d Cons by (simp add: task_ok_def)
      with t' s' lg Cons show ?thesis by auto
    next
      case (Inr u)
      with step Cons l have t': "t' = t\<lparr>pending := xs\<rparr>" and s': "s' = s1"
        by (auto simp: step_task_def)
      have "b = (d @ [x]) @ xs" "set (d @ [x]) \<subseteq> set (snd s1)"
        using d Cons lg by auto
      then have "task_ok L (snd s') b t'"
        using t' s' None unfolding task_ok_def by (simp del: append_assoc)
      with t' s' lg Cons show ?thesis by auto
    qed
  qed
qed

lemma run_task_ok:
  assumes logs: "logs_calls L"
    and ok: "task_ok L (snd s) b t"
    and run: "run_task L t s = (t', s')"
  shows "task_ok L (snd s') b t' \<and> (\<exists>ys. snd s' = snd s @ ys \<and> set ys \<subseteq> set (pending t))
         \<and> pending t' = []"
proof -
  obtain r s1 where le: "load_each L (pending t) s = (r, s1)"
    by (cases "load_each L (pending t) s")
  note lg = load_each_log [OF logs le]
  show ?thesis
  proof (cases r)
    case (Inr u)
    with run le have t': "t' = t\<lparr>pending := []\<rparr>" and s': "s' = s1"
      by (auto simp: run_task_def)
    from lg Inr have l: "snd s1 = snd s @ pending t" by simp
    have "task_ok L (snd s') b t'"
      using ok t' s' l by (auto simp: task_ok_def split: option.splits)
    with t' s' l show ?thesis by auto
  next
    case (Inl e)
    with run le have t': "t' = \<lparr>pending = [], stored = Some e\<rparr>" and s': "s' = s1"
      by (auto simp: run_task_def)
    from lg Inl obtain k where k: "k < length (pending t)"
      "snd s1 = snd s @ take (Suc k) (pending t)"
      "raises L (pending t ! k) e"
      by auto
    from k(1) obtain x xs where p: "pending t = x # xs" by (cases "pending t") auto
    from k(1) ok have none: "stored t = None"
      by (auto simp: task_ok_def split: option.splits)
    with ok obtain d where d: "b = d @ pending t" "set d \<subseteq> set (snd s)"
      by (auto simp: task_ok_def)
    have "hd b \<in> set (snd s1)"
      using d p k(2) by (cases d) auto
    moreover have "pending t ! k \<in> set b"
      using d k(1) by auto
    ultimately have "task_ok L (snd s') b t'"
      using t' s' d p k(3) by (auto simp: task_ok_def)
    moreover have "set (take (Suc k) (pending t)) \<subseteq> set (pending t)"
      by (rule set_take_subset)
    ultimately show ?thesis using t' s' k(2) by auto
  qed
qed


lemma run_all_ok:
  assumes logs: "logs_calls L"
    and ok: "list_all2 (task_ok L (snd s)) bs ts"
    and run: "run_all L ts s = (ts', s')"
  shows "list_all2 (task_ok L (snd s')) bs ts' \<and> (\<forall>t\<in>set ts'. pending t = [])
         \<and> (\<exists>ys. snd s' = snd s @ ys \<and> set ys \<subseteq> (\<Union>t\<in>set ts. set (pending t)))"
  using ok run
proof (induction ts arbitrary: bs s ts' s' rule: list.induct)
  case Nil
  from Nil.prems(1) have "bs = []" by simp
  with Nil.prems(2) show ?case by simp
next
  case (Cons t ts)
  from Cons.prems(1) obtain b bs' where bs: "bs = b # bs'"
    and okt: "task_ok L (snd s) b t" and okts: "list_all2 (task_ok L (snd s)) bs' ts"
    by (auto simp: list_all2_Cons2)
  obtain t1 s1 where rt: "run_task L t s = (t1, s1)" by (cases "run_task L t s")
  obtain ts2 s2 where ra: "run_all L ts s1 = (ts2, s2)" by (cases "run_all L ts s1")
  from Cons.prems(2) rt ra have res: "ts' = t1 # ts2" "s' = s2" by auto
  from run_task_ok [OF logs okt rt] obtain ys1 where
    t1: "task_ok L (snd s1) b t1" "pending t1 = []"
    and l1: "snd s1 = snd s @ ys1" "set ys1 \<subseteq> set (pending t)"
    by blast
  have "list_all2 (task_ok L (snd s1)) bs' ts"
    using okts l1(1) by (auto elim!: list_all2_mono intro: task_ok_mono)
  from Cons.IH [OF this ra] obtain ys2 where
    ts2: "list_all2 (task_ok L (snd s2)) bs' ts2" "\<forall>t\<in>set ts2. pending t = []"
    and l2: "snd s2 = snd s1 @ ys2" "set ys2 \<subseteq> (\<Union>t\<in>set ts. set (pending t))"
    by blast
  have "task_ok L (snd s2) b t1"
    using t1(1) l2(1) by (auto intro: task_ok_mono)
  with ts2 t1(2) res bs have a: "list_all2 (task_ok L (snd s')) bs ts'"
    "\<forall>t\<in>set ts'. pending t = []"
    by auto
  have "snd s' = snd s @ (ys1 @ ys2)" "set (ys1 @ ys2) \<subseteq> (\<Union>t\<in>set (t # ts). set (pending t))"
    using l1 l2 res by auto
  with a show ?case by blast
qed

lemma run_schedule_ok:
  assumes logs: "logs_calls L"
    and ok: "list_all2 (task_ok L (snd s)) bs ts"
    and run: "run_schedule L sched ts s = (ts', s')"
  shows "list_all2 (task_ok L (snd s')) bs ts'
         \<and> (\<Union>t\<in>set ts'. set (pending t)) \<subseteq> (\<Union>t\<in>set ts. set (pending t))
         \<and> (\<exists>ys. snd s' = snd s @ ys \<and> set ys \<subseteq> (\<Union>t\<in>set ts. set (pending t)))"
  using ok run
proof (induction sched arbitrary: ts s)
  case Nil
  then show ?case by auto
next
  case (Cons i sched)
  show ?case
  proof (cases "i < length ts")
    case False
    with Cons.prems(2) have "run_schedule L sched ts s = (ts', s')" by simp
    from Cons.IH [OF Cons.prems(1) this] show ?thesis .
  next
    case True
    obtain t1 s1 where st: "step_task L (ts ! i) s = (t1, s1)"
      by (cases "step_task L (ts ! i) s")
    with True Cons.prems(2) have rest: "run_schedule L sched (ts[i := t1]) s1 = (ts', s')"
      by simp
    from Cons.prems(1) True have len: "length bs = length ts"
      and oki: "task_ok L (snd s) (bs ! i) (ts ! i)"
      by (auto simp: list_all2_conv_all_nth)
    from step_task_ok [OF logs oki st] obtain ys1 where
      t1: "task_ok L (snd s1) (bs ! i) t1" "set (pending t1) \<subseteq> set (pending (ts ! i))"
      and l1: "snd s1 = snd s @ ys1" "set ys1 \<subseteq> set (pending (ts ! i))"
      by blast
    have "ts ! i \<in> set ts" using True by simp
    then have here: "set (pending (ts ! i)) \<subseteq> (\<Union>t\<in>set ts. set (pending t))"
      by blast
    have shrink: "(\<Union>t\<in>set (ts[i := t1]). set (pending t)) \<subseteq> (\<Union>t\<in>set ts. set (pending t))"
    proof
      fix x
      assume "x \<in> (\<Union>t\<in>set (ts[i := t1]). set (pending t))"
      then obtain t where t: "t \<in> set (ts[i := t1])" "x \<in> set (pending t)" by auto
      from t(1) have "t = t1 \<or> t \<in> set ts"
        using set_update_subset_insert [of ts i t1] by auto
      with t(2) t1(2) here show "x \<in> (\<Union>t\<in>set ts. set (pending t))" by auto
    qed
    have "list_all2 (task_ok L (snd s1)) bs ts"
      using Cons.prems(1) l1(1) by (auto elim!: list_all2_mono intro: task_ok_mono)
    then have "list_all2 (task_ok L (snd s1)) bs (ts[i := t1])"
      using t1(1) True len by (auto simp: list_all2_conv_all_nth nth_list_update)
    from Cons.IH [OF this rest] obtain ys2 where
      a: "list_all2 (task_ok L (snd s')) bs ts'"
      and b: "(\<Union>t\<in>set ts'. set (pending t)) \<subseteq> (\<Union>t\<in>set (ts[i := t1]). set (pending t))"
      and l2: "snd s' = snd s1 @ ys2" "set ys2 \<subseteq> (\<Union>t\<in>set (ts[i := t1]). set (pending t))"
      by blast
    have "snd s' = snd s @ (ys1 @ ys2)" "set (ys1 @ ys2) \<subseteq> (\<Union>t\<in>set ts. set (pending t))"
      using l1 l2 shrink here by auto
    with a b shrink show ?thesis by blast
  qed
qed

lemma run_tasks_ok:
  assumes logs: "logs_calls L"
    and ok: "list_all2 (task_ok L (snd s)) bs ts"
    and run: "run_tasks pool L ts s = (ts', s')"
  shows "list_all2 (task_ok L (snd s')) bs ts' \<and> (\<forall>t\<in>set ts'. pending t = [])
         \<and> (\<exists>ys. snd s' = snd s @ ys \<and> set ys \<subseteq> (\<Union>t\<in>set ts. set (pending t)))"
proof (cases pool)
  case None
  with run have "run_all L ts s = (ts', s')" by (simp add: run_tasks_def)
  from run_all_ok [OF logs ok this] show ?thesis .
next
  case (Some sched)
  obtain ts1 s1 where rs: "run_schedule L sched ts s = (ts1, s1)"
    by (cases "run_schedule L sched ts s")
  with Some run have ra: "run_all L ts1 s1 = (ts', s')" by (simp add: run_tasks_def)
  from run_schedule_ok [OF logs ok rs] obtain ys1 where
    a: "list_all2 (task_ok L (snd s1)) bs ts1"
    and b: "(\<Union>t\<in>set ts1. set (pending t)) \<subseteq> (\<Union>t\<in>set ts. set (pending t))"
    and l1: "snd s1 = snd s @ ys1" "set ys1 \<subseteq> (\<Union>t\<in>set ts. set (pending t))"
    by blast
  from run_all_ok [OF logs a ra] obtain ys2 where
    c: "list_all2 (task_ok L (snd s')) bs ts'" "\<forall>t\<in>set ts'. pending t = []"
    and l2: "snd s' = snd s1 @ ys2" "set ys2 \<subseteq> (\<Union>t\<in>set ts1. set (pending t))"
    by blast
  have "snd s' = snd s @ (ys1 @ ys2)" "set (ys1 @ ys2) \<subseteq> (\<Union>t\<in>set ts. set (pending t))"
    using l1 l2 b by auto
  with c show ?thesis by blast
qed


lemma bunch_subset: "set (bunch tbls i) \<subseteq> set tbls"
proof -
  have "set (bunch tbls i) \<subseteq> set (drop (i * bunch_size) tbls)"
    unfolding bunch_def Let_def by (rule set_take_subset)
  also have "\<dots> \<subseteq> set tbls" by (rule set_drop_subset)
  finally show ?thesis .
qed

text \<open>The bunches are the list of tables cut into pieces: no table is left out, none is loaded twice.\<close>

lemma concat_chunks: "concat (map (\<lambda>i. take k (drop (i * k) xs)) [0..<m]) = take (m * k) xs"
proof (induction m)
  case 0
  then show ?case by simp
next
  case (Suc m)
  have "take (m * k) xs @ take k (drop (m * k) xs) = take (m * k + k) xs"
    by (simp add: take_add)
  with Suc show ?case by (simp add: add.commute)
qed

lemma bunches_cover: "concat (map (bunch tbls) [0..<num_bunches (length tbls)]) = tbls"
proof (cases "num_bunches (length tbls)")
  case 0
  then have "(length tbls + 99) div 100 = 0"
    by (simp add: num_bunches_def bunch_size_def)
  then have "length tbls = 0" by arith
  with 0 show ?thesis by simp
next
  case (Suc m)
  let ?k = bunch_size
  have full: "bunch tbls i = take ?k (drop (i * ?k) tbls)" if "i < m" for i
    using that Suc by (simp add: bunch_def Let_def)
  from Suc have "(length tbls + 99) div 100 = Suc m"
    by (simp add: num_bunches_def bunch_size_def)
  then have "m * 100 \<le> length tbls" by arith
  then have "m * ?k \<le> length tbls" by (simp add: bunch_size_def)
  then have last: "bunch tbls m = drop (m * ?k) tbls"
    using Suc by (simp add: bunch_def Let_def)
  have "map (bunch tbls) [0..<m] = map (\<lambda>i. take ?k (drop (i * ?k) tbls)) [0..<m]"
    using full by simp
  then have "concat (map (bunch tbls) [0..<m]) = take (m * ?k) tbls"
    by (simp only: concat_chunks)
  with last Suc show ?thesis by simp
qed

lemma load_bunches_ok:
  assumes logs: "logs_calls L"
    and run: "load_bunches pool L tbls s = (futures, s')"
  shows "length futures = num_bunches (length tbls)
       \<and> (\<forall>i<num_bunches (length tbls).
            case futures ! i of
              None \<Rightarrow> set (bunch tbls i) \<subseteq> set (snd s')
            | Some e \<Rightarrow> hd (bunch tbls i) \<in> set (snd s') \<and> (\<exists>x\<in>set (bunch tbls i). raises L x e))
       \<and> (\<exists>ys. snd s' = snd s @ ys \<and> set ys \<subseteq> set tbls)"
proof -
  let ?nb = "num_bunches (length tbls)"
  let ?bs = "map (bunch tbls) [0..<?nb]"
  let ?ts = "map (\<lambda>i. \<lparr>pending = bunch tbls i, stored = None\<rparr>) [0..<?nb]"
  obtain ts' where rt: "run_tasks pool L ?ts s = (ts', s')" and fu: "futures = map stored ts'"
    using run by (auto simp: load_bunches_def split: prod.splits)
  have init: "list_all2 (task_ok L (snd s)) ?bs ?ts"
    by (simp add: list_all2_conv_all_nth task_ok_def)
  from run_tasks_ok [OF logs init rt] obtain ys where
    ok: "list_all2 (task_ok L (snd s')) ?bs ts'" and fin: "\<forall>t\<in>set ts'. pending t = []"
    and lg: "snd s' = snd s @ ys" "set ys \<subseteq> (\<Union>t\<in>set ?ts. set (pending t))"
    by blast
  from ok have len: "length ts' = ?nb"
    by (auto dest: list_all2_lengthD)
  have each: "case futures ! i of
              None \<Rightarrow> set (bunch tbls i) \<subseteq> set (snd s')
            | Some e \<Rightarrow> hd (bunch tbls i) \<in> set (snd s') \<and> (\<exists>x\<in>set (bunch tbls i). raises L x e)"
    if i: "i < ?nb" for i
  proof -
    from ok i have t: "task_ok L (snd s') (bunch tbls i) (ts' ! i)"
      by (auto simp: list_all2_conv_all_nth)
    from fin i len have p: "pending (ts' ! i) = []" by simp
    from i len fu have f: "futures ! i = stored (ts' ! i)" by simp
    from t p f show ?thesis
      by (auto simp: task_ok_def split: option.splits)
  qed
  have "(\<Union>t\<in>set ?ts. set (pending t)) \<subseteq> set tbls"
    using bunch_subset by auto
  with lg have "\<exists>ys. snd s' = snd s @ ys \<and> set ys \<subseteq> set tbls" by blast
  with len fu each show ?thesis by simp
qed


lemma get_futures_Inr: "get_futures fs = Inr u \<longleftrightarrow> (\<forall>f\<in>set fs. f = None)"
  by (induction fs rule: get_futures.induct) auto



lemma sorted_file_names_ok:
  "sorted_file_names d entries w = (Inr names, w') \<Longrightarrow>
   names = sort (filter (\<lambda>n. \<not> starts_with_dot n \<and> endsWith n ''.sql'') entries)"
proof -
  assume a: "sorted_file_names d entries w = (Inr names, w')"
  then obtain fs where c: "collect_file_names d entries [] w = (Inr fs, w')"
    and names: "names = sort fs"
    by (auto simp: sorted_file_names_def split: prod.splits sum.splits)
  from collect_file_names_ok [OF c] names show ?thesis by simp
qed

text \<open>
  Claim C4. \<open>lg\<close> lists the names \<^verbatim>\<open>loadTable\<close> was called with, in call order, and \<open>firsts\<close>
  are the collected names that begin with the marker \<open>%2Einner%2E\<close>, sorted. Whatever the
  pool and its schedule: the marked names among \<open>lg\<close> are an initial part of \<open>firsts\<close>, in
  that order; in \<open>lg\<close> every marked name stands before every name without the marker; and
  when a name without the marker was loaded at all, or the constructor returned without
  an exception, all of \<open>firsts\<close> had been loaded before.
\<close>

theorem inner_tables_load_first:
  assumes run: "DatabaseOrdinary_ctor ext entries pool name0 path0 w = (r, w', lg)"
    and firsts: "firsts = filter is_inner
                   (sort (filter (\<lambda>n. \<not> starts_with_dot n \<and> endsWith n ''.sql'') entries))"
  shows "prefix (filter is_inner lg) firsts \<and> sorted firsts
       \<and> lg = filter is_inner lg @ filter (\<lambda>f. \<not> is_inner f) lg
       \<and> (filter (\<lambda>f. \<not> is_inner f) lg \<noteq> [] \<longrightarrow> filter is_inner lg = firsts)
       \<and> (r = Inr () \<longrightarrow> filter is_inner lg = firsts)"
proof -
  let ?L = "loadTable_logged ext path0 name0"
  let ?w0 = "w\<lparr>name := name0, path := path0, tables := Map.empty\<rparr>"
  have srt: "sorted firsts"
    unfolding firsts by (simp add: sorted_wrt_filter)
  have inner: "\<forall>f\<in>set firsts. is_inner f"
    unfolding firsts by simp
  obtain r0 w1 where l: "sorted_file_names path0 entries ?w0 = (r0, w1)"
    by (cases "sorted_file_names path0 entries ?w0")
  show ?thesis
  proof (cases r0)
    case (Inl e)
    with run l have "lg = []" "r = Inl e"
      by (auto simp: DatabaseOrdinary_ctor_def)
    with srt show ?thesis by simp
  next
    case (Inr names)
    with l have names: "names = sort (filter (\<lambda>n. \<not> starts_with_dot n \<and> endsWith n ''.sql'') entries)"
      by (auto dest: sorted_file_names_ok)
    then have f: "filter is_inner names = firsts" by (simp add: firsts)
    obtain r1 s2 where le: "load_each ?L firsts (w1, []) = (r1, s2)"
      by (cases "load_each ?L firsts (w1, [])")
    note lg1 = load_each_log [OF loadTable_logged_logs le]
    show ?thesis
    proof (cases r1)
      case (Inl e)
      with run l Inr f le have res: "r = Inl e" "lg = snd s2"
        by (auto simp: DatabaseOrdinary_ctor_def Let_def)
      from lg1 Inl obtain k where "snd s2 = take (Suc k) firsts" by auto
      with res have lg: "lg = take (Suc k) firsts" by simp
      then have "set lg \<subseteq> set firsts" by (simp add: set_take_subset)
      with inner have all: "\<forall>f\<in>set lg. is_inner f" by blast
      then have a: "filter is_inner lg = lg" "filter (\<lambda>f. \<not> is_inner f) lg = []"
        by (simp_all add: filter_empty_conv)
      have "prefix lg firsts" unfolding lg by (rule take_is_prefix)
      with a res srt show ?thesis by simp
    next
      case (Inr u)
      with lg1 have s2: "snd s2 = firsts" by simp
      let ?tbls = "filter (\<lambda>f. \<not> is_inner f) names"
      obtain futures s3 where lb: "load_bunches pool ?L ?tbls s2 = (futures, s3)"
        by (cases "load_bunches pool ?L ?tbls s2")
      with run l \<open>r0 = Inr names\<close> f le Inr have res: "lg = snd s3"
        by (auto simp: DatabaseOrdinary_ctor_def Let_def)
      from load_bunches_ok [OF loadTable_logged_logs lb] s2 obtain ys where
        ys: "snd s3 = firsts @ ys" "set ys \<subseteq> set ?tbls"
        by auto
      from ys(2) have "\<forall>f\<in>set ys. \<not> is_inner f" by auto
      then have "filter is_inner ys = []" "filter (\<lambda>f. \<not> is_inner f) ys = ys"
        by (simp_all add: filter_empty_conv)
      moreover from inner have "filter is_inner firsts = firsts"
        "filter (\<lambda>f. \<not> is_inner f) firsts = []"
        by (simp_all add: filter_empty_conv)
      ultimately have "filter is_inner lg = firsts" "filter (\<lambda>f. \<not> is_inner f) lg = ys"
        "lg = firsts @ ys"
        using res ys(1) by simp_all
      with srt show ?thesis by simp
    qed
  qed
qed



theorem inner_tables_load_first_witness:
  "snd (snd (DatabaseOrdinary_ctor ext0 entries0 (Some [0, 0]) ''db'' ''/meta'' world_dir))
     = [''%2Einner%2Ev.sql'', ''a.sql'', ''b.sql'', ''y.sql''] \<and>
   prefix (filter is_inner
             (snd (snd (DatabaseOrdinary_ctor ext0 entries0 (Some [0, 0]) ''db'' ''/meta'' world_dir))))
          [''%2Einner%2Ev.sql''] \<and>
   filter is_inner
     (snd (snd (DatabaseOrdinary_ctor ext0 entries0 (Some [0, 0]) ''db'' ''/meta'' world_dir)))
     = [''%2Einner%2Ev.sql'']"
proof -
  let ?c = "DatabaseOrdinary_ctor ext0 entries0 (Some [0, 0]) ''db'' ''/meta'' world_dir"
  have run: "?c = (fst ?c, fst (snd ?c), snd (snd ?c))" by simp
  have firsts: "[''%2Einner%2Ev.sql''] = filter is_inner
      (sort (filter (\<lambda>n. \<not> starts_with_dot n \<and> endsWith n ''.sql'') entries0))"
    by code_simp
  have lg: "snd (snd ?c) = [''%2Einner%2Ev.sql'', ''a.sql'', ''b.sql'', ''y.sql'']"
    by code_simp
  have ok: "fst ?c = Inr ()"
    by code_simp
  from inner_tables_load_first [OF run firsts] ok
  have "prefix (filter is_inner (snd (snd ?c))) [''%2Einner%2Ev.sql'']"
    "filter is_inner (snd (snd ?c)) = [''%2Einner%2Ev.sql'']"
    by blast+
  with lg show ?thesis by blast
qed


end
